theory Spec2Isabelle
  imports Complex_Main "HOL-Library.Word"
begin

unbundle bit_operations_syntax

section \<open>Data model of point.go\<close>

text \<open>
  \<^verbatim>\<open>type Point [2]float64\<close>: a pair (longitude, latitude). The finite values of
  \<^verbatim>\<open>float64\<close> are real numbers and are modelled as \<^typ>\<open>real\<close>. The only
  arithmetic the codecs do on them is the comparison of a coordinate with a midpoint and
  the halving of a bounding interval that starts at \<open>[-180, 180]\<close> or \<open>[-90, 90]\<close>. The
  bounds are multiples of \<open>45 / 2^k\<close> after at most \<open>k + 3\<close> halvings of an axis, so
  the \<^verbatim>\<open>float64\<close> midpoint \<^verbatim>\<open>(min + max) / 2.0\<close> is the exact one as long as an axis
  has been halved at most 47 times before: for every bit count up to 96. From 97 bits on
  the sum rounds and the code leaves the bisection on the reals, so every statement
  about the value of \<^verbatim>\<open>GeoHashInt64\<close> below is for at most 96 bits. NaN and the infinities are
  outside the model.

  Go's \<^verbatim>\<open>int\<close> is taken to be 64 bits wide. Values of type \<^verbatim>\<open>int\<close> are modelled
  as \<^typ>\<open>int\<close>, with the conversions to the unsigned types and the wrap-around of
  arithmetic written out; \<^verbatim>\<open>int64\<close> and \<^verbatim>\<open>uint64\<close> are \<^typ>\<open>64 word\<close>, read by
  \<^const>\<open>sint\<close> and \<^const>\<open>unat\<close>.
\<close>

type_synonym float64 = real
type_synonym int64 = "64 word"
type_synonym uint64 = "64 word"
type_synonym Point = "float64 \<times> float64"

definition Lng :: "Point \<Rightarrow> float64" where
  "Lng p = fst p"

definition Lat :: "Point \<Rightarrow> float64" where
  "Lat p = snd p"

text \<open>\<^verbatim>\<open>uint(level)\<close>: the conversion of an \<^verbatim>\<open>int\<close> to \<^verbatim>\<open>uint\<close> keeps the low 64 bits.\<close>

definition uint_of_int :: "int \<Rightarrow> nat" where
  "uint_of_int v = nat (v mod 2 ^ 64)"

definition uint64_of_int :: "int \<Rightarrow> uint64" where
  "uint64_of_int v = word_of_int v"

text \<open>
  \<^verbatim>\<open>scalarMercatorProject(lng, lat, level) (x, y uint64)\<close> and
  \<^verbatim>\<open>scalarMercatorInverse(x, y, level) (lng, lat float64)\<close> are declared in another file
  of the package; the codec takes them as given pure functions, so the model takes them as
  parameters.
\<close>

type_synonym projection = "float64 \<Rightarrow> float64 \<Rightarrow> uint64 \<Rightarrow> uint64 \<times> uint64"

section \<open>Quadkey codec\<close>

text \<open>
  The loop of \<^verbatim>\<open>Point.Quadkey\<close>:
  \<^verbatim>\<open>for i = 0; i < uint(level); i++ {
      result |= (x & (1 << i)) << i
      result |= (y & (1 << i)) << (i + 1) }\<close>
  The counter \<open>i\<close> stays below \<open>uint(level) < 2^64\<close>, so it never wraps and is a
  \<^typ>\<open>nat\<close>. A Go shift by 64 or more gives 0, as \<^const>\<open>push_bit\<close> on a 64-bit word does.
\<close>

function quadkey_loop :: "nat \<Rightarrow> nat \<Rightarrow> uint64 \<Rightarrow> uint64 \<Rightarrow> uint64 \<Rightarrow> uint64" where
  "quadkey_loop i n x y result =
     (if i < n then
        quadkey_loop (i + 1) n x y
          ((result OR push_bit i (x AND push_bit i 1))
             OR push_bit (i + 1) (y AND push_bit i 1))
      else result)"
  by pat_completeness auto
termination
  by (relation "measure (\<lambda>(i, n, x, y, result). n - i)") auto

declare quadkey_loop.simps [simp del]

definition quadkey_interleave :: "uint64 \<Rightarrow> uint64 \<Rightarrow> int \<Rightarrow> int64" where
  "quadkey_interleave x y level = quadkey_loop 0 (uint_of_int level) x y 0"

definition Quadkey :: "projection \<Rightarrow> Point \<Rightarrow> int \<Rightarrow> int64" where
  "Quadkey project p level =
     (case project (Lng p) (Lat p) (uint64_of_int level) of
        (x, y) \<Rightarrow> quadkey_interleave x y level)"

text \<open>
  The loop of \<^verbatim>\<open>NewPointFromQuadkey\<close>, on \<^verbatim>\<open>int64\<close> values:
  \<^verbatim>\<open>for i = 0; i < uint(level); i++ {
      x |= (key & (1 << (2 * i))) >> i
      y |= (key & (1 << (2*i + 1))) >> (i + 1) }\<close>
  The shift counts \<^verbatim>\<open>2*i\<close> and \<^verbatim>\<open>2*i + 1\<close> are computed in \<^verbatim>\<open>uint\<close> and wrap; the
  shift to the right of a signed value is arithmetic. The results are passed on as
  \<^verbatim>\<open>uint64(x)\<close> and \<^verbatim>\<open>uint64(y)\<close>, the same bits.
\<close>

function decode_loop :: "nat \<Rightarrow> nat \<Rightarrow> int64 \<Rightarrow> int64 \<Rightarrow> int64 \<Rightarrow> int64 \<times> int64" where
  "decode_loop i n key x y =
     (if i < n then
        decode_loop (i + 1) n key
          (x OR signed_drop_bit i (key AND push_bit ((2 * i) mod 2 ^ 64) 1))
          (y OR signed_drop_bit (i + 1) (key AND push_bit ((2 * i + 1) mod 2 ^ 64) 1))
      else (x, y))"
  by pat_completeness auto
termination
  by (relation "measure (\<lambda>(i, n, key, x, y). n - i)") auto

declare decode_loop.simps [simp del]

definition quadkey_deinterleave :: "int64 \<Rightarrow> int \<Rightarrow> int64 \<times> int64" where
  "quadkey_deinterleave key level = decode_loop 0 (uint_of_int level) key 0 0"


section \<open>Quadkey string form\<close>

text \<open>
  Go's run-time panics, the only failures this code has: an index outside an array and a
  slice bound outside its operand.
\<close>

datatype panic = IndexOutOfRange | SliceBoundsOutOfRange

text \<open>Arithmetic on \<^verbatim>\<open>int\<close> wraps to 64 bits; \<^verbatim>\<open>/\<close> truncates towards zero.\<close>

definition int_wrap :: "int \<Rightarrow> int" where
  "int_wrap v = sint (word_of_int v :: 64 word)"

definition go_quot :: "int \<Rightarrow> int \<Rightarrow> int" where
  "go_quot a b = (if (a < 0) = (b < 0) then \<bar>a\<bar> div \<bar>b\<bar> else - (\<bar>a\<bar> div \<bar>b\<bar>))"

text \<open>
  \<^verbatim>\<open>strconv.FormatInt(i, 4)\<close> of the standard library: the digits of \<open>|i|\<close> in base 4,
  most significant first, at least one digit, after a \<^verbatim>\<open>-\<close> when \<open>i\<close> is negative. Its
  loop writes the digits from the right:
  \<^verbatim>\<open>for u >= b { i--; a[i] = digits[u%b]; u /= b }; i--; a[i] = digits[u]\<close>
\<close>

definition digits :: string where
  "digits = ''0123456789abcdefghijklmnopqrstuvwxyz''"

function formatBits :: "nat \<Rightarrow> string \<Rightarrow> string" where
  "formatBits u a =
     (if 4 \<le> u then formatBits (u div 4) (digits ! (u mod 4) # a)
      else digits ! u # a)"
  by pat_completeness auto
termination
  by (relation "measure (\<lambda>(u, a). u)") auto

declare formatBits.simps [simp del]

definition FormatInt :: "int64 \<Rightarrow> string" where
  "FormatInt i =
     (if sint i < 0 then CHR ''-'' # formatBits (nat (- sint i)) []
      else formatBits (nat (sint i)) [])"

text \<open>
  \<^verbatim>\<open>Point.QuadkeyString\<close>:
  \<^verbatim>\<open>s := strconv.FormatInt(p.Quadkey(level), 4)
  zeros := "000000000000000000000000000000"
  return zeros[:((level+1)-len(s))/2] + s\<close>
  The slice expression panics when its bound is negative or exceeds the 30 characters of
  \<^verbatim>\<open>zeros\<close>.
\<close>

definition zeros :: string where
  "zeros = ''000000000000000000000000000000''"

definition QuadkeyString :: "projection \<Rightarrow> Point \<Rightarrow> int \<Rightarrow> panic + string" where
  "QuadkeyString project p level =
     (let s = FormatInt (Quadkey project p level);
          k = go_quot (int_wrap (int_wrap (level + 1) - int (length s))) 2
      in if 0 \<le> k \<and> k \<le> int (length zeros) then Inr (take (nat k) zeros @ s)
         else Inl SliceBoundsOutOfRange)"

text \<open>
  \<^verbatim>\<open>strconv.ParseInt(s, 4, 64)\<close> of the standard library returns a value and an error.
  An empty string, an empty string after the sign, or a character that is not a digit below
  the base (\<^verbatim>\<open>'0' <= c\<close> with \<^verbatim>\<open>c - '0'\<close> below 4; a letter counts 10 or more)
  gives \<^verbatim>\<open>(0, ErrSyntax)\<close>; a magnitude that does not fit gives the nearest bound and
  \<^verbatim>\<open>ErrRange\<close>. The digit loop of \<^verbatim>\<open>ParseUint\<close> stops at the first failure, so an
  overflow is reported before a bad character that comes after it.
\<close>

datatype NumError = ErrSyntax | ErrRange

definition digit4 :: "char \<Rightarrow> nat option" where
  "digit4 c =
     (let v = (of_char c :: nat); zero = (of_char (CHR ''0'') :: nat)
      in if zero \<le> v \<and> v - zero < 4 then Some (v - zero) else None)"

fun parseUint_loop :: "string \<Rightarrow> nat \<Rightarrow> nat \<times> NumError option" where
  "parseUint_loop [] n = (n, None)"
| "parseUint_loop (c # cs) n =
     (case digit4 c of
        None \<Rightarrow> (0, Some ErrSyntax)
      | Some d \<Rightarrow>
          if 2 ^ 64 div 4 \<le> n then (2 ^ 64 - 1, Some ErrRange)
          else if 2 ^ 64 \<le> n * 4 + d then (2 ^ 64 - 1, Some ErrRange)
          else parseUint_loop cs (n * 4 + d))"

definition ParseUint :: "string \<Rightarrow> nat \<times> NumError option" where
  "ParseUint s = (if s = [] then (0, Some ErrSyntax) else parseUint_loop s 0)"

definition ParseInt :: "string \<Rightarrow> int64 \<times> NumError option" where
  "ParseInt s =
     (if s = [] then (0, Some ErrSyntax)
      else
        let neg = (hd s = CHR ''-'');
            body = (if hd s = CHR ''+'' \<or> hd s = CHR ''-'' then tl s else s)
        in case ParseUint body of
             (un, Some ErrSyntax) \<Rightarrow> (0, Some ErrSyntax)
           | (un, _) \<Rightarrow>
               if \<not> neg \<and> 2 ^ 63 \<le> un then (word_of_int (2 ^ 63 - 1), Some ErrRange)
               else if neg \<and> 2 ^ 63 < un then (word_of_int (- (2 ^ 63)), Some ErrRange)
               else (if neg then - word_of_nat un else word_of_nat un, None))"



section \<open>Geohash codec\<close>

text \<open>
  The loop of \<^verbatim>\<open>Point.GeoHashInt64\<close>, with its five variables as arguments:
  \<^verbatim>\<open>for i := 0; i < bits; i++ {
      hash <<= 1
      if i%2 == 0 {
          mid := (lngMin + lngMax) / 2.0
          if p[0] > mid { lngMin = mid; hash |= 1 } else { lngMax = mid }
      } else {
          mid := (latMin + latMax) / 2.0
          if p[1] > mid { latMin = mid; hash |= 1 } else { latMax = mid }
      } }\<close>
  The counter starts at 0 and stays below \<open>bits\<close>, so it is a \<^typ>\<open>nat\<close> running to
  \<open>nat bits\<close>; the loop does not run for \<open>bits \<le> 0\<close>. The accumulator is an
  \<^verbatim>\<open>int64\<close>: the shift drops the bit that leaves the word. The midpoints are the exact
  ones, as those of the code are up to 96 bits.
\<close>

function geohash_loop ::
  "Point \<Rightarrow> nat \<Rightarrow> nat \<Rightarrow> int64 \<Rightarrow> float64 \<Rightarrow> float64 \<Rightarrow> float64 \<Rightarrow> float64 \<Rightarrow> int64" where
  "geohash_loop p i n hash latMin latMax lngMin lngMax =
     (if i < n then
        if i mod 2 = 0 then
          if fst p > (lngMin + lngMax) / 2
          then geohash_loop p (i + 1) n (push_bit 1 hash OR 1) latMin latMax
                 ((lngMin + lngMax) / 2) lngMax
          else geohash_loop p (i + 1) n (push_bit 1 hash) latMin latMax
                 lngMin ((lngMin + lngMax) / 2)
        else
          if snd p > (latMin + latMax) / 2
          then geohash_loop p (i + 1) n (push_bit 1 hash OR 1) ((latMin + latMax) / 2) latMax
                 lngMin lngMax
          else geohash_loop p (i + 1) n (push_bit 1 hash) latMin ((latMin + latMax) / 2)
                 lngMin lngMax
      else hash)"
  by pat_completeness auto
termination
  by (relation "measure (\<lambda>(p, i, n, hash, latMin, latMax, lngMin, lngMax). n - i)") auto

declare geohash_loop.simps [simp del]

definition GeoHashInt64 :: "Point \<Rightarrow> int \<Rightarrow> int64" where
  "GeoHashInt64 p bits = geohash_loop p 0 (nat bits) 0 (- 90) 90 (- 180) 180"

text \<open>
  \<^verbatim>\<open>Point.GeoHash(chars ...int)\<close>. The optional argument is a list, of which the first
  element counts. The buffer is \<^verbatim>\<open>var result [15]byte\<close>; writing outside it panics, and
  so does the final slice \<^verbatim>\<open>result[:precision]\<close> with a bound outside \<open>0..15\<close>.
  \<^verbatim>\<open>for i := 1; i <= precision; i++ {
      result[precision-i] = byte(base32[hash&0x1F])
      hash >>= 5 }\<close>
  The index \<^verbatim>\<open>hash&0x1F\<close> is between 0 and 31, inside the 32 characters of
  \<^verbatim>\<open>base32\<close>. The shift of an \<^verbatim>\<open>int64\<close> to the right is arithmetic.
\<close>

definition base32 :: string where
  "base32 = ''0123456789bcdefghjkmnpqrstuvwxyz''"

text \<open>
  Modelled from the spec: the constant \<^verbatim>\<open>GeoHashPrecision\<close> is declared in another file
  of the package; the spec gives the default precision as 12.
\<close>

definition GeoHashPrecision :: int where
  "GeoHashPrecision = 12"

function geohash_chars_loop :: "nat \<Rightarrow> int \<Rightarrow> int64 \<Rightarrow> string \<Rightarrow> panic + string" where
  "geohash_chars_loop i precision hash result =
     (if int i \<le> precision then
        if 0 \<le> precision - int i \<and> precision - int i < int (length result)
        then geohash_chars_loop (i + 1) precision (signed_drop_bit 5 hash)
               (result[nat (precision - int i) := base32 ! unat (hash AND 0x1F)])
        else Inl IndexOutOfRange
      else Inr result)"
  by pat_completeness auto
termination
  by (relation "measure (\<lambda>(i, precision, hash, result). nat (precision + 1 - int i))") auto

declare geohash_chars_loop.simps [simp del]

definition GeoHash :: "Point \<Rightarrow> int list \<Rightarrow> panic + string" where
  "GeoHash p chars =
     (let precision = (case chars of [] \<Rightarrow> GeoHashPrecision | c # cs \<Rightarrow> c);
          hash = GeoHashInt64 p (int_wrap (5 * precision))
      in case geohash_chars_loop 1 precision hash (replicate 15 (CHR 0x00)) of
           Inl e \<Rightarrow> Inl e
         | Inr result \<Rightarrow>
             if 0 \<le> precision \<and> precision \<le> int (length result)
             then Inr (take (nat precision) result)
             else Inl SliceBoundsOutOfRange)"

section \<open>The geohash codec as the specification words it\<close>

text \<open>
  One bisection: the midpoint of the bounds; the bit is 1 and the lower bound moves up to
  the midpoint exactly when the coordinate exceeds the midpoint, else the bit is 0 and the
  upper bound moves down.
\<close>

definition bisect :: "real \<Rightarrow> real \<times> real \<Rightarrow> bool \<times> (real \<times> real)" where
  "bisect c b = (if c > (fst b + snd b) / 2 then (True, ((fst b + snd b) / 2, snd b))
                 else (False, (fst b, (fst b + snd b) / 2)))"

text \<open>
  The bounds (longitude, latitude) before iteration \<open>k\<close>: they start at \<open>[-180, 180]\<close> and
  \<open>[-90, 90]\<close>; an even iteration bisects the longitude, an odd one the latitude.
\<close>

primrec spec_bounds :: "Point \<Rightarrow> nat \<Rightarrow> (real \<times> real) \<times> (real \<times> real)" where
  "spec_bounds p 0 = ((- 180, 180), (- 90, 90))"
| "spec_bounds p (Suc k) =
     (case spec_bounds p k of
        (lngB, latB) \<Rightarrow>
          if even k then (snd (bisect (fst p) lngB), latB)
          else (lngB, snd (bisect (snd p) latB)))"

definition spec_bit :: "Point \<Rightarrow> nat \<Rightarrow> bool" where
  "spec_bit p k =
     (if even k then fst (bisect (fst p) (fst (spec_bounds p k)))
      else fst (bisect (snd p) (snd (spec_bounds p k))))"

text \<open>The accumulator without a width: shifted left by one, then the new bit.\<close>

primrec spec_acc :: "Point \<Rightarrow> nat \<Rightarrow> nat" where
  "spec_acc p 0 = 0"
| "spec_acc p (Suc k) = 2 * spec_acc p k + of_bool (spec_bit p k)"

text \<open>
  The string of \<open>c\<close> characters built from an accumulator: the 5 least-significant bits
  give the character of the last unfilled position, and the accumulator shifted right by 5
  gives the positions before it.
\<close>

primrec spec_base32 :: "int64 \<Rightarrow> nat \<Rightarrow> string" where
  "spec_base32 h 0 = []"
| "spec_base32 h (Suc c) = spec_base32 (signed_drop_bit 5 h) c @ [base32 ! unat (h AND 0x1F)]"

section \<open>The interleaving loop, bit by bit\<close>

lemma bit_single:
  "bit (push_bit j (x AND push_bit i 1)) m \<longleftrightarrow> m < 64 \<and> m = i + j \<and> bit x i"
  for x :: "64 word"
  by (auto simp add: bit_simps dest: bit_imp_le_length)

lemma bit_single_signed:
  "bit (signed_drop_bit j (k AND push_bit i 1)) m \<longleftrightarrow> m + j = i \<and> bit k i"
  if "i < 63" for k :: "64 word"
  using that
  by (auto simp add: bit_simps ac_simps dest: bit_imp_le_length split: if_splits)

lemma bit_quadkey_loop:
  "bit (quadkey_loop i n x y r) m \<longleftrightarrow>
     bit r m \<or> (m < 64 \<and> 2 * i \<le> m \<and> m < 2 * n \<and>
                (if even m then bit x (m div 2) else bit y (m div 2)))"
proof (induction i n x y r arbitrary: m rule: quadkey_loop.induct)
  case (1 i n x y result)
  show ?case
  proof (cases "i < n")
    case False
    then show ?thesis
      by (subst quadkey_loop.simps) auto
  next
    case True
    have cases: "2 * i \<le> m \<longleftrightarrow> m = 2 * i \<or> m = 2 * i + 1 \<or> 2 * (i + 1) \<le> m"
      by arith
    show ?thesis
      apply (subst quadkey_loop.simps)
      apply (simp only: True if_True "1.IH" [OF True] bit_or_iff bit_single)
      using True apply (auto simp add: cases)
      done
  qed
qed

lemma bit_decode_loop:
  assumes "n \<le> 31"
  shows "(bit (fst (decode_loop i n key x y)) m \<longleftrightarrow>
            bit x m \<or> (i \<le> m \<and> m < n \<and> bit key (2 * m)))
       \<and> (bit (snd (decode_loop i n key x y)) m \<longleftrightarrow>
            bit y m \<or> (i \<le> m \<and> m < n \<and> bit key (2 * m + 1)))"
  using assms
proof (induction i n key x y arbitrary: m rule: decode_loop.induct)
  case (1 i n key x y)
  show ?case
  proof (cases "i < n")
    case False
    then show ?thesis
      by (subst (1 2) decode_loop.simps) auto
  next
    case True
    with "1.prems" have small: "2 * i < 63" "2 * i + 1 < 63" "(2 * i) mod 2 ^ 64 = 2 * i"
      "(2 * i + 1) mod 2 ^ 64 = 2 * i + 1"
      by simp_all
    have cases: "i \<le> m \<longleftrightarrow> m = i \<or> i + 1 \<le> m"
      by arith
    show ?thesis
      apply (subst (1 2) decode_loop.simps)
      apply (simp only: True if_True "1.IH" [OF True "1.prems"])
      apply (simp only: bit_or_iff small(3,4)
          bit_single_signed [OF small(1)] bit_single_signed [OF small(2)])
      using True apply (auto simp add: cases)
      done
  qed
qed


lemma uint_less_exp_iff:
  "uint k < 2 ^ b \<longleftrightarrow> (\<forall>m\<ge>b. \<not> bit k m)" for k :: "64 word"
proof
  assume "uint k < 2 ^ b"
  then have eq: "take_bit b (uint k) = uint k"
    by (simp add: take_bit_int_eq_self)
  show "\<forall>m\<ge>b. \<not> bit k m"
  proof (intro allI impI notI)
    fix m
    assume "b \<le> m" and "bit k m"
    then have "bit (uint k) m"
      using bit_imp_le_length [of k m] by (simp add: bit_uint_iff)
    then have "bit (take_bit b (uint k)) m"
      by (simp only: eq)
    with \<open>b \<le> m\<close> show False
      by (simp add: bit_take_bit_iff)
  qed
next
  assume *: "\<forall>m\<ge>b. \<not> bit k m"
  have "take_bit b k = k"
  proof (rule bit_word_eqI)
    fix n
    show "bit (take_bit b k) n = bit k n"
    proof (cases "n < b")
      case True
      then show ?thesis
        by (simp add: bit_take_bit_iff)
    next
      case False
      then have "b \<le> n"
        by simp
      with * have "\<not> bit k n"
        by blast
      then show ?thesis
        by (simp add: bit_take_bit_iff)
    qed
  qed
  then have "uint k = uint (take_bit b k)"
    by simp
  also have "\<dots> = take_bit b (uint k)"
    by (rule unsigned_take_bit_eq)
  finally have "uint k = take_bit b (uint k)" .
  moreover have "take_bit b (uint k) < 2 ^ b"
    by (rule take_bit_int_less_exp)
  ultimately show "uint k < 2 ^ b"
    by simp
qed

lemma word_less_exp_iff:
  "k < 2 ^ b \<longleftrightarrow> (\<forall>m\<ge>b. \<not> bit k m)" if "b < 64" for k :: "64 word"
  using that word_2p_lem [of b k] by (simp add: word_size uint_less_exp_iff)

lemma sint_eq_uint_if:
  "sint k = uint k" if "\<not> bit k 63" for k :: "64 word"
proof -
  have "\<forall>m\<ge>63. \<not> bit k m"
  proof (intro allI impI)
    fix m :: nat
    assume "63 \<le> m"
    show "\<not> bit k m"
    proof (cases "m = 63")
      case True
      with that show ?thesis by simp
    next
      case False
      with \<open>63 \<le> m\<close> have "64 \<le> m" by simp
      then show ?thesis
        using bit_imp_le_length [of k m] by auto
    qed
  qed
  then have "uint k < 2 ^ 63"
    by (simp only: uint_less_exp_iff)
  then have "take_bit 63 (uint k) = uint k"
    by (simp add: take_bit_int_eq_self)
  moreover have "\<not> bit (uint k) 63"
    using that by (simp add: bit_uint_iff)
  then have "signed_take_bit 63 (uint k) = take_bit 63 (uint k)"
    by (rule signed_take_bit_eq_if_positive)
  moreover have "sint k = signed_take_bit 63 (uint k)"
    using sint_uint [of k] by simp
  ultimately show ?thesis
    by simp
qed

lemma sint_range_iff:
  "0 \<le> sint k \<and> sint k < 2 ^ b \<longleftrightarrow> (\<forall>m\<ge>b. \<not> bit k m)" if "b \<le> 63" for k :: "64 word"
proof (cases "bit k 63")
  case True
  then have "sint k < 0"
    using bit_last_iff [of k] by simp
  with True that show ?thesis
    by auto
next
  case False
  then have "sint k = uint k"
    by (rule sint_eq_uint_if)
  then show ?thesis
    by (simp add: uint_less_exp_iff)
qed

lemma uint_of_int_small:
  "uint_of_int L = nat L" if "0 \<le> L" "L < 2 ^ 64"
  using that by (simp add: uint_of_int_def)

lemma bit_quadkey_interleave:
  "bit (quadkey_interleave x y L) m \<longleftrightarrow>
     m < 64 \<and> m < 2 * uint_of_int L \<and> (if even m then bit x (m div 2) else bit y (m div 2))"
  by (simp add: quadkey_interleave_def bit_quadkey_loop)

lemma bit_quadkey_deinterleave:
  assumes "uint_of_int L \<le> 31"
  shows "bit (fst (quadkey_deinterleave key L)) m \<longleftrightarrow> m < uint_of_int L \<and> bit key (2 * m)"
    and "bit (snd (quadkey_deinterleave key L)) m \<longleftrightarrow> m < uint_of_int L \<and> bit key (2 * m + 1)"
  using bit_decode_loop [OF assms, of 0 key 0 0 m]
  by (simp_all add: quadkey_deinterleave_def)

lemma deinterleave_interleave:
  assumes "uint_of_int L \<le> 31" "\<forall>m\<ge>uint_of_int L. \<not> bit x m" "\<forall>m\<ge>uint_of_int L. \<not> bit y m"
  shows "quadkey_deinterleave (quadkey_interleave x y L) L = (x, y)"
proof (rule prod_eqI)
  show "fst (quadkey_deinterleave (quadkey_interleave x y L) L) = fst (x, y)"
    using assms
    by (auto intro!: bit_word_eqI simp add: bit_quadkey_deinterleave bit_quadkey_interleave not_le [symmetric])
  show "snd (quadkey_deinterleave (quadkey_interleave x y L) L) = snd (x, y)"
    using assms
    by (auto intro!: bit_word_eqI simp add: bit_quadkey_deinterleave bit_quadkey_interleave not_le [symmetric])
qed

lemma interleave_deinterleave:
  assumes "uint_of_int L \<le> 31" "\<forall>m\<ge>2 * uint_of_int L. \<not> bit k m"
  shows "quadkey_interleave (fst (quadkey_deinterleave k L)) (snd (quadkey_deinterleave k L)) L = k"
proof (rule bit_word_eqI)
  fix m :: nat
  assume "m < LENGTH(64)"
  show "bit (quadkey_interleave (fst (quadkey_deinterleave k L)) (snd (quadkey_deinterleave k L)) L) m
    = bit k m"
  proof (cases "m < 2 * uint_of_int L")
    case False
    with assms(2) have "\<not> bit k m"
      by (simp add: not_less)
    with False show ?thesis
      by (simp add: bit_quadkey_interleave)
  next
    case True
    with assms(1) have "m < 64" "m div 2 < uint_of_int L"
      by simp_all
    then show ?thesis
      using True assms(1)
      by (cases "even m") (auto simp add: bit_quadkey_interleave bit_quadkey_deinterleave elim!: evenE oddE)
  qed
qed

lemma quadkey_interleave_range:
  assumes "0 \<le> L" "L \<le> 31"
  shows "0 \<le> sint (quadkey_interleave x y L) \<and> sint (quadkey_interleave x y L) < 4 ^ nat L"
proof -
  from assms have n: "uint_of_int L = nat L"
    by (simp add: uint_of_int_small)
  from assms have "2 * nat L \<le> 63"
    by simp
  moreover have "\<forall>m\<ge>2 * nat L. \<not> bit (quadkey_interleave x y L) m"
    by (simp add: bit_quadkey_interleave n)
  ultimately have "0 \<le> sint (quadkey_interleave x y L)
      \<and> sint (quadkey_interleave x y L) < 2 ^ (2 * nat L)"
    by (simp only: sint_range_iff)
  then show ?thesis
    by (simp add: power_mult)
qed

section \<open>The geohash loop against the bisection of the specification\<close>

lemma shift_in_bit:
  "push_bit 1 (word_of_nat a :: 64 word) OR 1 = word_of_nat (2 * a + 1)"
  "push_bit 1 (word_of_nat a :: 64 word) = word_of_nat (2 * a)"
  by (simp_all add: push_bit_eq_mult or_one_eq mult.commute)

lemma geohash_loop_spec:
  assumes "i \<le> n" "spec_bounds p i = ((lngMin, lngMax), (latMin, latMax))"
  shows "geohash_loop p i n (word_of_nat (spec_acc p i)) latMin latMax lngMin lngMax
    = word_of_nat (spec_acc p n)"
  using assms
proof (induction "n - i" arbitrary: i lngMin lngMax latMin latMax)
  case 0
  then have "i = n"
    by simp
  then show ?case
    by (subst geohash_loop.simps) simp
next
  case (Suc d)
  then have less: "i < n" and d: "d = n - Suc i" and le: "Suc i \<le> n"
    by simp_all
  note IH = Suc.hyps(1) [OF d le]
  note b = Suc.prems(2)
  show ?case
  proof (cases "even i")
    case True
    then have i2: "i mod 2 = 0"
      by presburger
    show ?thesis
    proof (cases "fst p > (lngMin + lngMax) / 2")
      case gt: True
      have bnd: "spec_bounds p (Suc i) = (((lngMin + lngMax) / 2, lngMax), (latMin, latMax))"
        using True gt by (simp add: b bisect_def)
      have acc: "spec_acc p (Suc i) = 2 * spec_acc p i + 1"
        using True gt by (simp add: spec_bit_def b bisect_def)
      have h: "push_bit 1 (word_of_nat (spec_acc p i)) OR 1 = (word_of_nat (spec_acc p (Suc i)) :: 64 word)"
        by (simp only: acc shift_in_bit(1))
      have "geohash_loop p i n (word_of_nat (spec_acc p i)) latMin latMax lngMin lngMax
          = geohash_loop p (i + 1) n (push_bit 1 (word_of_nat (spec_acc p i)) OR 1) latMin latMax ((lngMin + lngMax) / 2) lngMax"
        by (subst geohash_loop.simps) (simp only: less i2 gt if_True if_False simp_thms)
      also have "\<dots> = geohash_loop p (Suc i) n (word_of_nat (spec_acc p (Suc i))) latMin latMax ((lngMin + lngMax) / 2) lngMax"
        by (simp only: h flip: Suc_eq_plus1)
      also have "\<dots> = word_of_nat (spec_acc p n)"
        by (rule IH) (fact bnd)
      finally show ?thesis .
    next
      case le: False
      have bnd: "spec_bounds p (Suc i) = ((lngMin, (lngMin + lngMax) / 2), (latMin, latMax))"
        using True le by (simp add: b bisect_def)
      have acc: "spec_acc p (Suc i) = 2 * spec_acc p i"
        using True le by (simp add: spec_bit_def b bisect_def)
      have h: "push_bit 1 (word_of_nat (spec_acc p i)) = (word_of_nat (spec_acc p (Suc i)) :: 64 word)"
        by (simp only: acc shift_in_bit(2))
      have "geohash_loop p i n (word_of_nat (spec_acc p i)) latMin latMax lngMin lngMax
          = geohash_loop p (i + 1) n (push_bit 1 (word_of_nat (spec_acc p i))) latMin latMax lngMin ((lngMin + lngMax) / 2)"
        by (subst geohash_loop.simps) (simp only: less i2 le if_True if_False simp_thms)
      also have "\<dots> = geohash_loop p (Suc i) n (word_of_nat (spec_acc p (Suc i))) latMin latMax lngMin ((lngMin + lngMax) / 2)"
        by (simp only: h flip: Suc_eq_plus1)
      also have "\<dots> = word_of_nat (spec_acc p n)"
        by (rule IH) (fact bnd)
      finally show ?thesis .
    qed
  next
    case False
    then have i2: "(i mod 2 = 0) = False"
      by presburger
    show ?thesis
    proof (cases "snd p > (latMin + latMax) / 2")
      case gt: True
      have bnd: "spec_bounds p (Suc i) = ((lngMin, lngMax), ((latMin + latMax) / 2, latMax))"
        using False gt by (simp add: b bisect_def)
      have acc: "spec_acc p (Suc i) = 2 * spec_acc p i + 1"
        using False gt by (simp add: spec_bit_def b bisect_def)
      have h: "push_bit 1 (word_of_nat (spec_acc p i)) OR 1 = (word_of_nat (spec_acc p (Suc i)) :: 64 word)"
        by (simp only: acc shift_in_bit(1))
      have "geohash_loop p i n (word_of_nat (spec_acc p i)) latMin latMax lngMin lngMax
          = geohash_loop p (i + 1) n (push_bit 1 (word_of_nat (spec_acc p i)) OR 1) ((latMin + latMax) / 2) latMax lngMin lngMax"
        by (subst geohash_loop.simps) (simp only: less i2 gt if_True if_False simp_thms)
      also have "\<dots> = geohash_loop p (Suc i) n (word_of_nat (spec_acc p (Suc i))) ((latMin + latMax) / 2) latMax lngMin lngMax"
        by (simp only: h flip: Suc_eq_plus1)
      also have "\<dots> = word_of_nat (spec_acc p n)"
        by (rule IH) (fact bnd)
      finally show ?thesis .
    next
      case le: False
      have bnd: "spec_bounds p (Suc i) = ((lngMin, lngMax), (latMin, (latMin + latMax) / 2))"
        using False le by (simp add: b bisect_def)
      have acc: "spec_acc p (Suc i) = 2 * spec_acc p i"
        using False le by (simp add: spec_bit_def b bisect_def)
      have h: "push_bit 1 (word_of_nat (spec_acc p i)) = (word_of_nat (spec_acc p (Suc i)) :: 64 word)"
        by (simp only: acc shift_in_bit(2))
      have "geohash_loop p i n (word_of_nat (spec_acc p i)) latMin latMax lngMin lngMax
          = geohash_loop p (i + 1) n (push_bit 1 (word_of_nat (spec_acc p i))) latMin ((latMin + latMax) / 2) lngMin lngMax"
        by (subst geohash_loop.simps) (simp only: less i2 le if_True if_False simp_thms)
      also have "\<dots> = geohash_loop p (Suc i) n (word_of_nat (spec_acc p (Suc i))) latMin ((latMin + latMax) / 2) lngMin lngMax"
        by (simp only: h flip: Suc_eq_plus1)
      also have "\<dots> = word_of_nat (spec_acc p n)"
        by (rule IH) (fact bnd)
      finally show ?thesis .
    qed
  qed
qed

lemma GeoHashInt64_spec_acc:
  "GeoHashInt64 p bits = word_of_nat (spec_acc p (nat bits))"
  using geohash_loop_spec [of 0 "nat bits" p "- 180" 180 "- 90" 90]
  by (simp add: GeoHashInt64_def)


section \<open>Order of the geohash integers\<close>

lemma sint_word_of_nat_mono:
  fixes a b :: nat
  assumes "a \<le> b" "a div 2 ^ m = b div 2 ^ m" "m \<le> 63"
  shows "sint (word_of_nat a :: 64 word) \<le> sint (word_of_nat b :: 64 word)"
proof -
  have same: "a div 2 ^ (m + j) = b div 2 ^ (m + j)" for j
    using assms(2) by (simp flip: div_exp_eq)
  from assms(3) have "a div 2 ^ 63 = b div 2 ^ 63" "a div 2 ^ 64 = b div 2 ^ 64"
    using same [of "63 - m"] same [of "64 - m"] by simp_all
  then have top: "bit a 63 = bit b 63" and q: "a div 2 ^ 64 = b div 2 ^ 64"
    by (simp_all add: bit_iff_odd)
  have "a mod 2 ^ 64 \<le> b mod 2 ^ 64"
  proof -
    have "a = a div 2 ^ 64 * 2 ^ 64 + a mod 2 ^ 64" "b = b div 2 ^ 64 * 2 ^ 64 + b mod 2 ^ 64"
      by simp_all
    with q assms(1) show ?thesis
      by (metis add_le_cancel_left)
  qed
  then have "int (a mod 2 ^ 64) \<le> int (b mod 2 ^ 64)"
    by simp
  then have low: "take_bit 64 (int a) \<le> take_bit 64 (int b)"
    by (simp add: take_bit_eq_mod zmod_int)
  have s: "sint (word_of_nat c :: 64 word) = take_bit 64 (int c) - 2 ^ 64 * of_bool (bit c 63)" for c
  proof -
    have "sint (word_of_nat c :: 64 word) = signed_take_bit 63 (int c)"
      by (simp add: signed_of_nat)
    also have "\<dots> = take_bit (Suc 63) (int c) - 2 ^ Suc 63 * of_bool (bit (int c) 63)"
      by (rule signed_take_bit_eq_take_bit_minus)
    finally show ?thesis
      by (simp add: bit_of_nat_iff_bit)
  qed
  show ?thesis
    using low top by (simp add: s)
qed

lemma spec_acc_prefix: "spec_acc p (k + m) div 2 ^ m = spec_acc p k"
proof (induction m)
  case 0
  show ?case by simp
next
  case (Suc m)
  have "spec_acc p (k + Suc m) div 2 ^ Suc m
      = (2 * spec_acc p (k + m) + of_bool (spec_bit p (k + m))) div 2 div 2 ^ m"
    by (simp add: div_mult2_eq)
  also have "(2 * spec_acc p (k + m) + of_bool (spec_bit p (k + m))) div 2 = spec_acc p (k + m)"
    by simp
  finally show ?case
    using Suc by simp
qed

lemma spec_bounds_Suc:
  "fst (spec_bounds p (Suc k)) =
     (if even k then snd (bisect (fst p) (fst (spec_bounds p k))) else fst (spec_bounds p k))"
  "snd (spec_bounds p (Suc k)) =
     (if even k then snd (spec_bounds p k) else snd (bisect (snd p) (snd (spec_bounds p k))))"
  by (simp_all split: prod.splits)

lemma spec_lat_bounds:
  "snd p1 = snd p2 \<Longrightarrow> snd (spec_bounds p1 k) = snd (spec_bounds p2 k)"
  by (induction k) (simp_all only: spec_bounds_Suc spec_bounds.simps(1) snd_conv)

lemma spec_acc_mono_step:
  assumes lat: "snd p1 = snd p2" and lng: "fst p1 \<le> fst p2"
  shows "(fst (spec_bounds p1 k) = fst (spec_bounds p2 k) \<and> spec_acc p1 k = spec_acc p2 k)
       \<or> spec_acc p1 k < spec_acc p2 k"
proof (induction k)
  case 0
  show ?case by simp
next
  case (Suc k)
  from Suc show ?case
  proof
    assume "spec_acc p1 k < spec_acc p2 k"
    then show ?thesis
      by (cases "spec_bit p1 k"; cases "spec_bit p2 k") simp_all
  next
    assume eq: "fst (spec_bounds p1 k) = fst (spec_bounds p2 k) \<and> spec_acc p1 k = spec_acc p2 k"
    note latb = spec_lat_bounds [OF lat, of k]
    show ?thesis
    proof (cases "even k")
      case False
      with eq latb lat show ?thesis
        by (simp add: spec_bit_def spec_bounds_Suc del: spec_bounds.simps(2))
    next
      case True
      obtain lo hi where b: "fst (spec_bounds p2 k) = (lo, hi)"
        by (cases "fst (spec_bounds p2 k)")
      with eq have b1: "fst (spec_bounds p1 k) = (lo, hi)"
        by simp
      show ?thesis
      proof (cases "fst p1 > (lo + hi) / 2")
        case gt: True
        with lng have "fst p2 > (lo + hi) / 2"
          by simp
        with gt eq True b b1 show ?thesis
          by (simp add: spec_bit_def bisect_def spec_bounds_Suc del: spec_bounds.simps(2))
      next
        case False
        with eq True b b1 show ?thesis
          by (cases "fst p2 > (lo + hi) / 2")
            (simp_all add: spec_bit_def bisect_def spec_bounds_Suc del: spec_bounds.simps(2))
      qed
    qed
  qed
qed

lemma spec_acc_mono:
  assumes "snd p1 = snd p2" "fst p1 \<le> fst p2"
  shows "spec_acc p1 k \<le> spec_acc p2 k"
  using spec_acc_mono_step [OF assms, of k] by auto

lemma spec_acc_2:
  assumes "snd p1 = snd p2" "(0 < fst p1) = (0 < fst p2)" "k \<le> 2"
  shows "spec_acc p1 k = spec_acc p2 k"
proof -
  from assms(3) consider "k = 0" | "k = Suc 0" | "k = Suc (Suc 0)"
    by arith
  then show ?thesis
    using assms(1,2) by cases (simp_all add: spec_bit_def bisect_def)
qed

lemma GeoHashInt64_mono:
  assumes "snd p1 = snd p2" "(0 < fst p1) = (0 < fst p2)" "fst p1 \<le> fst p2" "n \<le> 65"
  shows "sint (GeoHashInt64 p1 n) \<le> sint (GeoHashInt64 p2 n)"
proof -
  define k where "k = min (nat n) 2"
  define m where "m = nat n - k"
  have nk: "nat n = k + m" and k2: "k \<le> 2" and m63: "m \<le> 63"
    using assms(4) by (simp_all add: k_def m_def)
  have "spec_acc p1 (nat n) div 2 ^ m = spec_acc p2 (nat n) div 2 ^ m"
    by (simp only: nk spec_acc_prefix spec_acc_2 [OF assms(1,2) k2])
  with spec_acc_mono [OF assms(1,3), of "nat n"] m63 show ?thesis
    by (simp only: GeoHashInt64_spec_acc sint_word_of_nat_mono)
qed

section \<open>The geohash string\<close>

lemma length_spec_base32 [simp]: "length (spec_base32 h c) = c"
  by (induction c arbitrary: h) simp_all

lemma spec_base32_nth:
  "k < c \<Longrightarrow>
     spec_base32 h c ! k = base32 ! unat (signed_drop_bit (5 * (c - 1 - k)) h AND 0x1F)"
proof (induction c arbitrary: h k)
  case 0
  then show ?case by simp
next
  case (Suc c)
  show ?case
  proof (cases "k < c")
    case True
    then have "5 * (c - 1 - k) + 5 = 5 * (Suc c - 1 - k)"
      by simp
    with True Suc.IH [OF True, of "signed_drop_bit 5 h"] show ?thesis
      by (simp add: nth_append)
  next
    case False
    with Suc.prems have "k = c"
      by simp
    then show ?thesis
      by (simp add: nth_append)
  qed
qed

lemma drop_list_update_same:
  "m < length xs \<Longrightarrow> drop m (xs[m := x]) = x # drop (Suc m) xs"
  by (simp add: upd_conv_take_nth_drop)

lemma geohash_chars_loop_spec:
  assumes "int i + int m = c + 1" "m \<le> length result"
  shows "geohash_chars_loop i c h result = Inr (spec_base32 h m @ drop m result)"
  using assms
proof (induction m arbitrary: i h result)
  case 0
  then have "\<not> int i \<le> c"
    by simp
  then show ?case
    by (subst geohash_chars_loop.simps) simp
next
  case (Suc m)
  then have run: "int i \<le> c" and idx: "c - int i = int m" and m: "m < length result"
    by simp_all
  have next_: "int (i + 1) + int m = c + 1" "m \<le> length (result[m := x])" for x
    using Suc.prems by simp_all
  have "geohash_chars_loop i c h result
      = geohash_chars_loop (i + 1) c (signed_drop_bit 5 h)
          (result[m := base32 ! unat (h AND 0x1F)])"
    using run m by (subst geohash_chars_loop.simps) (simp add: idx)
  also have "\<dots> = Inr (spec_base32 (signed_drop_bit 5 h) m
      @ drop m (result[m := base32 ! unat (h AND 0x1F)]))"
    by (rule Suc.IH) (fact next_)+
  also have "\<dots> = Inr (spec_base32 h (Suc m) @ drop (Suc m) result)"
    using m by (simp add: drop_list_update_same)
  finally show ?case .
qed

lemma int_wrap_small:
  "int_wrap v = v" if "- (2 ^ 63) \<le> v" "v < 2 ^ 63"
  using that by (simp add: int_wrap_def signed_of_int signed_take_bit_int_eq_self)

lemma GeoHash_in_range:
  assumes "0 \<le> c" "c \<le> 15"
  shows "GeoHash p (c # cs) = Inr (spec_base32 (GeoHashInt64 p (5 * c)) (nat c))"
proof -
  from assms have w: "int_wrap (5 * c) = 5 * c"
    by (simp add: int_wrap_small)
  have "geohash_chars_loop 1 c (GeoHashInt64 p (5 * c)) (replicate 15 (CHR 0x00))
      = Inr (spec_base32 (GeoHashInt64 p (5 * c)) (nat c) @ drop (nat c) (replicate 15 (CHR 0x00)))"
    using assms by (intro geohash_chars_loop_spec) simp_all
  with assms show ?thesis
    by (simp add: GeoHash_def w)
qed

lemma GeoHash_above:
  assumes "15 < c"
  shows "GeoHash p (c # cs) = Inl IndexOutOfRange"
proof -
  have "geohash_chars_loop 1 c h (replicate 15 (CHR 0x00)) = Inl IndexOutOfRange" for h
    using assms by (subst geohash_chars_loop.simps) simp
  then show ?thesis
    by (simp add: GeoHash_def)
qed

lemma GeoHash_below:
  assumes "c < 0"
  shows "GeoHash p (c # cs) = Inl SliceBoundsOutOfRange"
proof -
  have "geohash_chars_loop 1 c h (replicate 15 (CHR 0x00)) = Inr (replicate 15 (CHR 0x00))" for h
    using assms by (subst geohash_chars_loop.simps) simp
  with assms show ?thesis
    by (simp add: GeoHash_def)
qed

section \<open>Parsing\<close>


section \<open>Malformed numerals\<close>





section \<open>Levels beyond the width\<close>

lemma quadkey_loop_beyond:
  "quadkey_loop 0 n x y 0 = quadkey_loop 0 32 x y 0" if "32 \<le> n"
proof (rule bit_word_eqI)
  fix m :: nat
  assume "m < LENGTH(64)"
  with that have "m < 2 * n" "m < 2 * 32"
    by simp_all
  then show "bit (quadkey_loop 0 n x y 0) m = bit (quadkey_loop 0 32 x y 0) m"
    by (simp add: bit_quadkey_loop)
qed

lemma unat_GeoHashInt64:
  "unat (GeoHashInt64 p bits) = spec_acc p (nat bits) mod 2 ^ 64"
  by (simp add: GeoHashInt64_spec_acc unat_of_nat)

lemma GeoHashInt64_nonpositive:
  "GeoHashInt64 p bits = 0" if "bits \<le> 0"
  using that by (simp add: GeoHashInt64_spec_acc)

section \<open>Properties of the codecs\<close>

subsection \<open>Quadkey\<close>

text \<open>
  C8. For every point \<open>p\<close>, \<open>quadkey(p, 0)\<close> equals 0, whatever the projection returns.
\<close>

theorem Quadkey_level_0: "Quadkey project p 0 = 0"
  by (simp add: Quadkey_def quadkey_interleave_def uint_of_int_def quadkey_loop.simps split: prod.split)

theorem Quadkey_level_0_witness: "Quadkey (\<lambda>lng lat level. (5, 3)) (- 87, 41) 0 = 0"
  using Quadkey_level_0 [of "\<lambda>lng lat level. (5, 3)" "(- 87, 41)"] by simp

text \<open>
  C10. For every point \<open>p\<close> and every level \<open>L\<close> with \<open>0 \<le> L \<le> 31\<close>, \<open>quadkey(p, L)\<close> is
  non-negative and strictly less than \<open>4^L\<close>, regardless of the values the projection
  produces: the loop takes only the low \<open>L\<close> bits of \<open>x\<close> and \<open>y\<close> and places them below
  position \<open>2L\<close>.
\<close>

theorem Quadkey_range:
  assumes "0 \<le> L" "L \<le> 31"
  shows "0 \<le> sint (Quadkey project p L) \<and> sint (Quadkey project p L) < 4 ^ nat L"
  using quadkey_interleave_range [OF assms]
  by (simp add: Quadkey_def split: prod.split)

theorem Quadkey_range_witness:
  "(0::int) \<le> 3 \<and> (3::int) \<le> 31 \<and>
   0 \<le> sint (Quadkey (\<lambda>lng lat level. (5, 3)) (- 87, 41) 3) \<and>
   sint (Quadkey (\<lambda>lng lat level. (5, 3)) (- 87, 41) 3) < 4 ^ nat 3"
  using Quadkey_range [of 3 "\<lambda>lng lat level. (5, 3)" "(- 87, 41)"] by simp

text \<open>
  C2. For every level \<open>L\<close> in \<open>[0, 31]\<close>, the interleaving (bit \<open>i\<close> of \<open>x\<close> at position
  \<open>2i\<close>, bit \<open>i\<close> of \<open>y\<close> at position \<open>2i + 1\<close>, for \<open>i\<close> below \<open>L\<close>) of the grid
  coordinates \<open>(x, y)\<close>, each in \<open>[0, 2^L)\<close>, is a bijection onto the integers
  \<open>[0, 4^L)\<close>, and the decode loop of \<^verbatim>\<open>NewPointFromQuadkey\<close> gives back exactly
  \<open>(x, y)\<close>.
\<close>

theorem quadkey_interleave_bijection:
  assumes "0 \<le> L" "L \<le> 31"
  shows "bij_betw (\<lambda>(x, y). quadkey_interleave x y L)
           ({x. x < 2 ^ nat L} \<times> {y. y < 2 ^ nat L})
           {k. 0 \<le> sint k \<and> sint k < 4 ^ nat L}
       \<and> (\<forall>x y. x < 2 ^ nat L \<and> y < 2 ^ nat L \<longrightarrow>
            quadkey_deinterleave (quadkey_interleave x y L) L = (x, y))
       \<and> (\<forall>x y i. i < nat L \<longrightarrow>
            bit (quadkey_interleave x y L) (2 * i) = bit x i
            \<and> bit (quadkey_interleave x y L) (2 * i + 1) = bit y i)"
proof -
  let ?A = "{x :: uint64. x < 2 ^ nat L} \<times> {y :: uint64. y < 2 ^ nat L}"
  let ?B = "{k :: int64. 0 \<le> sint k \<and> sint k < 4 ^ nat L}"
  let ?f = "\<lambda>(x, y). quadkey_interleave x y L"
  let ?g = "\<lambda>k. quadkey_deinterleave k L"
  from assms have n: "uint_of_int L = nat L" and n31: "uint_of_int L \<le> 31"
    by (simp_all add: uint_of_int_small)
  from assms have small: "nat L < 64" "2 * nat L \<le> 63"
    by simp_all
  have dom: "x < 2 ^ nat L \<longleftrightarrow> (\<forall>m\<ge>uint_of_int L. \<not> bit x m)" for x :: uint64
    using small(1) by (simp add: word_less_exp_iff n)
  have cod: "0 \<le> sint k \<and> sint k < 4 ^ nat L \<longleftrightarrow> (\<forall>m\<ge>2 * uint_of_int L. \<not> bit k m)"
    for k :: int64
    using sint_range_iff [OF small(2), of k] by (simp add: power_mult n)
  have gf: "?g (?f a) = a" if "a \<in> ?A" for a
    using that by (cases a) (simp add: dom deinterleave_interleave [OF n31])
  have fg: "?f (?g k) = k" if "k \<in> ?B" for k
    using that interleave_deinterleave [OF n31, of k]
    by (simp add: cod case_prod_unfold)
  have fA: "?f ` ?A \<subseteq> ?B"
    using quadkey_interleave_range [OF assms] by auto
  have gB: "?g ` ?B \<subseteq> ?A"
  proof
    fix a
    assume "a \<in> ?g ` ?B"
    then obtain k where k: "k \<in> ?B" and a: "a = ?g k"
      by blast
    have "\<forall>m\<ge>uint_of_int L. \<not> bit (fst (?g k)) m" "\<forall>m\<ge>uint_of_int L. \<not> bit (snd (?g k)) m"
      by (simp_all add: bit_quadkey_deinterleave [OF n31])
    then have "fst (?g k) < 2 ^ nat L" "snd (?g k) < 2 ^ nat L"
      by (simp_all only: dom)
    then show "a \<in> ?A"
      by (simp add: a mem_Times_iff)
  qed
  have "bij_betw ?f ?A ?B"
    by (rule bij_betw_byWitness [where f' = ?g]) (use gf fg fA gB in blast)+
  moreover have "\<forall>x y. x < 2 ^ nat L \<and> y < 2 ^ nat L \<longrightarrow> ?g (quadkey_interleave x y L) = (x, y)"
    using gf by auto
  moreover have "bit (quadkey_interleave x y L) (2 * i) = bit x i
      \<and> bit (quadkey_interleave x y L) (2 * i + 1) = bit y i" if "i < nat L" for x y i
    using that small(2) by (simp add: bit_quadkey_interleave n)
  ultimately show ?thesis
    by blast
qed

theorem quadkey_interleave_bijection_witness:
  "(0::int) \<le> 2 \<and> (2::int) \<le> 31 \<and>
   bij_betw (\<lambda>(x, y). quadkey_interleave x y 2)
      ({x. x < 2 ^ nat 2} \<times> {y. y < 2 ^ nat 2}) {k. 0 \<le> sint k \<and> sint k < 4 ^ nat 2}
   \<and> quadkey_deinterleave (quadkey_interleave 2 3 2) 2 = (2, 3)
   \<and> bit (quadkey_interleave 2 3 2) (2 * 1) = bit (2 :: uint64) 1
   \<and> bit (quadkey_interleave 2 3 2) (2 * 1 + 1) = bit (3 :: uint64) 1"
proof -
  have level: "(0::int) \<le> 2" "(2::int) \<le> 31"
    by simp_all
  have "(2 :: uint64) < 2 ^ nat 2 \<and> (3 :: uint64) < 2 ^ nat 2" "(1 :: nat) < nat 2"
    by simp_all
  with quadkey_interleave_bijection [OF level] level show ?thesis
    by blast
qed

text \<open>
  C1. \<open>quadkeyString(p, L)\<close> is the base-4 representation of \<open>quadkey(p, L)\<close> after
  \<open>((L + 1) - d) / 2\<close> zero characters, \<open>d\<close> the number of its digits, and the string is
  meant to have exactly \<open>L\<close> characters: the decoder takes the length of the string as the
  level. The code misses that length whenever the key has two or more leading zero digits.
  At level 4 a point of the tile \<open>(2, 1)\<close> has the key 6, written \<^verbatim>\<open>"12"\<close>; the code
  prepends \<open>(5 - 2) / 2 = 1\<close> zero and returns \<^verbatim>\<open>"012"\<close>, of 3 characters, which
  \<^verbatim>\<open>NewPointFromQuadkeyString\<close> parses as the key 6 and decodes at level 3, as the tile
  \<open>(2, 1)\<close> of the coarser grid. At level 3 a point of the tile \<open>(0, 0)\<close> gives \<^verbatim>\<open>"00"\<close>.
\<close>

theorem QuadkeyString_short_at_level_4:
  "QuadkeyString (\<lambda>lng lat level. (2, 1)) (- 120, 83) 4 = Inr ''012''
   \<and> ParseInt ''012'' = (6, None)
   \<and> quadkey_deinterleave 6 (int (length ''012'')) = (2, 1)
   \<and> QuadkeyString (\<lambda>lng lat level. (0, 0)) (- 180, 85) 3 = Inr ''00''"
  by (simp add: QuadkeyString_def Quadkey_def quadkey_interleave_def uint_of_int_def
      quadkey_loop.simps FormatInt_def formatBits.simps digits_def zeros_def int_wrap_def
      go_quot_def ParseInt_def ParseUint_def digit4_def quadkey_deinterleave_def
      decode_loop.simps)




subsection \<open>Geohash\<close>



text \<open>
  C5, as the code has it. For every bit count \<open>n \<le> 65\<close> and every two points with the same
  latitude, on the same side of the prime meridian (the first bisection, which counts
  longitude 0 as west), and the longitude of the first at most that of the second,
  \<open>geoHashBits\<close> of the first is at most \<open>geoHashBits\<close> of the second, as \<^verbatim>\<open>int64\<close>
  values.
\<close>

theorem GeoHashInt64_monotone:
  assumes "snd p1 = snd p2" "(0 < fst p1) = (0 < fst p2)" "fst p1 \<le> fst p2" "n \<le> 65"
  shows "sint (GeoHashInt64 p1 n) \<le> sint (GeoHashInt64 p2 n)"
  using assms by (rule GeoHashInt64_mono)

theorem GeoHashInt64_monotone_witness:
  "snd (10 :: real, 0 :: real) = snd (100 :: real, 0 :: real)
   \<and> ((0 :: real) < fst (10 :: real, 0 :: real)) = (0 < fst (100 :: real, 0 :: real))
   \<and> fst (10 :: real, 0 :: real) \<le> fst (100 :: real, 0 :: real) \<and> (65 :: int) \<le> 65
   \<and> sint (GeoHashInt64 (10, 0) 65) \<le> sint (GeoHashInt64 (100, 0) 65)"
  using GeoHashInt64_monotone [of "(10, 0)" "(100, 0)" 65] by simp

text \<open>
  C5 as stated fails at 66 bits: the points \<open>(10, 0)\<close> and \<open>(100, 0)\<close> have the same
  latitude and lie in the eastern hemisphere, and their first longitude bits agree; the
  second longitude bit, 0 for longitude 10 and 1 for longitude 100, is the third bit emitted
  and reaches the sign position of the \<^verbatim>\<open>int64\<close>, so the larger longitude gets the
  negative integer.
\<close>

theorem GeoHashInt64_monotone_66_counterexample:
  "snd (10 :: real, 0 :: real) = snd (100 :: real, 0 :: real)
   \<and> ((0 :: real) < fst (10 :: real, 0 :: real)) = (0 < fst (100 :: real, 0 :: real))
   \<and> fst (10 :: real, 0 :: real) \<le> fst (100 :: real, 0 :: real)
   \<and> sint (GeoHashInt64 (10, 0) 66) = 6196214035015259645
   \<and> sint (GeoHashInt64 (100, 0) 66) = - 3027158001839516163"
  by (simp add: GeoHashInt64_def geohash_loop.simps)

text \<open>
  C4, as the code has it. For every point \<open>p\<close> and every precision \<open>c\<close> with
  \<open>0 \<le> c \<le> 15\<close>, \<open>geoHash(p, c)\<close> is the string of exactly \<open>c\<close> characters obtained from
  \<open>geoHashBits(p, 5c)\<close> by repeatedly taking the 5 least-significant bits of the
  accumulator, mapping them through the alphabet, placing the character at the last
  unfilled position, and shifting the accumulator right by 5; so the character at
  position \<open>k\<close> comes from the accumulator shifted right by \<open>5 (c - 1 - k)\<close>, and the 5
  bits extracted last become the first character. Without an argument the precision is
  \<^verbatim>\<open>GeoHashPrecision\<close>.
\<close>

theorem GeoHash_base32_string:
  assumes "0 \<le> c" "c \<le> 15"
  shows "GeoHash p (c # cs) = Inr (spec_base32 (GeoHashInt64 p (5 * c)) (nat c))
       \<and> int (length (spec_base32 (GeoHashInt64 p (5 * c)) (nat c))) = c
       \<and> (\<forall>k<nat c. spec_base32 (GeoHashInt64 p (5 * c)) (nat c) ! k
             = base32 ! unat (signed_drop_bit (5 * (nat c - 1 - k)) (GeoHashInt64 p (5 * c))
                 AND 0x1F))
       \<and> GeoHash p [] = GeoHash p [GeoHashPrecision]"
  using assms by (simp add: GeoHash_in_range spec_base32_nth) (simp add: GeoHash_def)

theorem GeoHash_base32_string_witness:
  "(0 :: int) \<le> 8 \<and> (8 :: int) \<le> 15
   \<and> GeoHash (985 / 100, 57097 / 1000) [8] = Inr ''u4phb4hw''"
proof -
  have h: "GeoHashInt64 (985 / 100, 57097 / 1000) (5 * 8) = 898369917468"
    by (simp add: GeoHashInt64_def geohash_loop.simps)
  have n: "nat 8 = Suc (Suc (Suc (Suc (Suc (Suc (Suc (Suc 0)))))))"
    by simp
  have "spec_base32 898369917468 (Suc (Suc (Suc (Suc (Suc (Suc (Suc (Suc 0)))))))) = ''u4phb4hw''"
    by (simp add: base32_def)
  with GeoHash_base32_string [of 8 "(985 / 100, 57097 / 1000)" "[]"] show ?thesis
    by (simp only: h n) simp
qed

text \<open>
  C4 as stated fails at precision 16: the first write, at index 15 of the 15-byte buffer,
  panics, and no string is returned.
\<close>

theorem GeoHash_precision_16_counterexample:
  "GeoHash (985 / 100, 57097 / 1000) [16] = Inl IndexOutOfRange"
  by (simp add: GeoHash_def geohash_chars_loop.simps)

text \<open>
  C9. \<^verbatim>\<open>GeoHash\<close> returns only for a precision in \<open>[0, 15]\<close>: for a negative precision
  the final slice panics (slice bound out of range), for a precision above 15 the first
  write panics (index out of range on the 15-byte buffer), and for a precision \<open>c\<close> in
  \<open>[0, 15]\<close> it returns a string of length \<open>c\<close>.
\<close>

theorem GeoHash_panics_outside_0_15:
  "(c < 0 \<longrightarrow> GeoHash p (c # cs) = Inl SliceBoundsOutOfRange)
   \<and> (15 < c \<longrightarrow> GeoHash p (c # cs) = Inl IndexOutOfRange)
   \<and> (0 \<le> c \<and> c \<le> 15 \<longrightarrow> (\<exists>s. GeoHash p (c # cs) = Inr s \<and> int (length s) = c))"
  by (simp add: GeoHash_below GeoHash_above GeoHash_in_range)

theorem GeoHash_panics_outside_0_15_witness:
  "GeoHash (- 12232 / 100, 4903 / 100) [- 1] = Inl SliceBoundsOutOfRange
   \<and> GeoHash (- 12232 / 100, 4903 / 100) [16] = Inl IndexOutOfRange
   \<and> (\<exists>s. GeoHash (- 12232 / 100, 4903 / 100) [15] = Inr s \<and> int (length s) = 15)"
  using GeoHash_panics_outside_0_15 [of "- 1" "(- 12232 / 100, 4903 / 100)" "[]"]
    GeoHash_panics_outside_0_15 [of 16 "(- 12232 / 100, 4903 / 100)" "[]"]
    GeoHash_panics_outside_0_15 [of 15 "(- 12232 / 100, 4903 / 100)" "[]"]
  by simp

subsection \<open>Counts outside the supported range\<close>

text \<open>
  C7, as the code has it. The encoders have no error path. For a bit count of 0 or less
  \<open>geoHashBits\<close> returns 0, and for a bit count up to 96, also above the 64 bits of the
  result, it returns the unbounded accumulator modulo \<open>2^64\<close>, that is, only the 64 bits
  emitted last. For a level whose conversion to \<^verbatim>\<open>uint\<close> is 32 or more (every negative
  level is one) \<open>quadkey\<close> returns the interleaving of the low 32 bits of \<open>x\<close> and \<open>y\<close>,
  the same as at level 32.
\<close>

theorem encoders_out_of_range_values:
  "(bits \<le> 0 \<longrightarrow> GeoHashInt64 p bits = 0)
   \<and> (bits \<le> 96 \<longrightarrow> unat (GeoHashInt64 p bits) = spec_acc p (nat bits) mod 2 ^ 64)
   \<and> (32 \<le> uint_of_int level \<longrightarrow>
        Quadkey project p level
          = (case project (Lng p) (Lat p) (uint64_of_int level) of
               (x, y) \<Rightarrow> quadkey_loop 0 32 x y 0))"
proof -
  have "Quadkey project p level
      = (case project (Lng p) (Lat p) (uint64_of_int level) of
           (x, y) \<Rightarrow> quadkey_loop 0 32 x y 0)"
    if "32 \<le> uint_of_int level"
    using quadkey_loop_beyond [OF that]
    by (simp only: Quadkey_def quadkey_interleave_def)
  then show ?thesis
    by (simp add: GeoHashInt64_nonpositive unat_GeoHashInt64)
qed

theorem encoders_out_of_range_values_witness:
  "GeoHashInt64 (10, 0) (- 1) = 0
   \<and> (66 :: int) \<le> 96
   \<and> unat (GeoHashInt64 (10, 0) 66) = spec_acc (10, 0) (nat 66) mod 2 ^ 64
   \<and> unat (GeoHashInt64 (10, 0) 66) = 6196214035015259645
   \<and> Quadkey (\<lambda>lng lat level. (1, 1)) (10, 0) (- 1) = 3"
proof -
  have "32 \<le> uint_of_int (- 1)"
    by (simp add: uint_of_int_def)
  moreover have "quadkey_loop 0 32 1 1 0 = 3"
    by (simp add: quadkey_loop.simps)
  moreover have "unat (GeoHashInt64 (10, 0) 66) = 6196214035015259645"
    by (simp add: GeoHashInt64_def geohash_loop.simps)
  ultimately show ?thesis
    using encoders_out_of_range_values [of "- 1" "(10, 0)" "- 1" "\<lambda>lng lat level. (1, 1)"]
      encoders_out_of_range_values [of 66 "(10, 0)" "- 1" "\<lambda>lng lat level. (1, 1)"]
    by simp
qed

text \<open>
  C7 as stated fails: a bit count of \<open>-1\<close> is answered with the integer 0, and level 32,
  beyond the 31 levels that fit the signed result, is answered with a negative key (here
  for the tile \<open>(2^31, 2^31)\<close> at the centre of the grid).
\<close>

theorem encoders_no_OutOfRange_counterexample:
  "GeoHashInt64 (10, 0) (- 1) = 0
   \<and> sint (Quadkey (\<lambda>lng lat level. (2 ^ 31, 2 ^ 31)) (0, 0) 32) = - (2 ^ 62)"
  by (simp add: GeoHashInt64_def geohash_loop.simps Quadkey_def quadkey_interleave_def
      uint_of_int_def quadkey_loop.simps)


end
